theory Spec2Isabelle
  imports Complex_Main "HOL-Library.Monad_Syntax"
begin

section \<open>Hunter and rabbit pursuit: the recurrence engine\<close>

text \<open>
  The repository holds two copies of one function \<open>simulate\<close>:
  \<^item> \<open>hunter_rabbit_modified_assumptions_hp.py\<close> (continuous step length, \<open>moves = a * D\<close>),
  \<^item> \<open>hunter_rabbit_original_rules_hp.py\<close> (unit steps, \<open>moves = mp.ceil(a * D)\<close>).
  The two bodies agree line by line except for the two assignments to \<open>moves\<close>.

  Numbers are \<open>mpmath\<close> values of 80 decimal digits in the source. They are modelled
  as \<^typ>\<open>real\<close>: the rounding of each operation to \<open>digits\<close> places is not part of
  this model, and neither is the assignment \<open>mp.mp.dps = digits\<close>. The progress line
  printed every 10000 cycles has no effect on the values and is left out.
\<close>

subsection \<open>Arithmetic of the numeric library\<close>

text \<open>
  A run that raises a Python exception is the value \<open>None\<close>. Division by zero raises
  \<open>ZeroDivisionError\<close>. Outside \<open>[-1, 1]\<close> the arc sine, and below \<open>0\<close> the square
  root, have no real value: the library hands back a complex number there, on which the
  operations that follow in the same cycle (\<open>%\<close> in \<open>wrap_angle\<close>, \<open>mp.hypot\<close>) raise.
  Such a call is modelled as the point where the run ends with an exception.
\<close>

definition mp_div :: "real \<Rightarrow> real \<Rightarrow> real option" where
  "mp_div x y = (if y = 0 then None else Some (x / y))"

definition mp_asin :: "real \<Rightarrow> real option" where
  "mp_asin x = (if - 1 \<le> x \<and> x \<le> 1 then Some (arcsin x) else None)"

definition mp_sqrt :: "real \<Rightarrow> real option" where
  "mp_sqrt x = (if 0 \<le> x then Some (sqrt x) else None)"

text \<open>\<open>mp.hypot(x, y)\<close> is the Euclidean norm of \<open>(x, y)\<close>.\<close>

definition hypot :: "real \<Rightarrow> real \<Rightarrow> real" where
  "hypot x y = sqrt (x * x + y * y)"

text \<open>
  The operator \<open>%\<close> on \<open>mpf\<close> values follows Python: the remainder has the sign of the
  divisor, that is \<open>x % y = x - y * floor (x / y)\<close>. The only divisor in the source is
  \<open>2 * PI_LD\<close>, which is not zero.
\<close>

definition py_mod :: "real \<Rightarrow> real \<Rightarrow> real" where
  "py_mod x y = x - y * of_int \<lfloor>x / y\<rfloor>"

text \<open>
  \<open>PI_LD = LD(mp.pi)\<close> is a module constant of both files. It is evaluated when the
  module is loaded, before \<open>simulate\<close> sets \<open>mp.mp.dps\<close>, so \<open>mp.pi\<close> is rounded to the
  library's default precision of 53 bits: \<open>PI_LD\<close> is the binary fraction nearest to
  \<open>pi\<close> with a 53-bit mantissa, \<open>884279719003555 / 2^48\<close>, and keeps that value in every
  later call.
\<close>

definition PI_LD :: real where
  "PI_LD = 884279719003555 / 281474976710656"

text \<open>\<open>wrap_angle(angle) = (angle + PI_LD) % (2 * PI_LD) - PI_LD\<close>, the same in both files.\<close>

definition wrap_angle :: "real \<Rightarrow> real" where
  "wrap_angle angle = py_mod (angle + PI_LD) (2 * PI_LD) - PI_LD"

subsection \<open>The state of a run\<close>

text \<open>The source file a run comes from; it selects the assignment to \<open>moves\<close>.\<close>

datatype variant = Modified | Original

text \<open>
  \<open>moves = a\<close> and \<open>moves = a * D\<close> in the modified model,
  \<open>moves = mp.ceil(a)\<close> and \<open>moves = mp.ceil(a * D)\<close> under the original rules.
\<close>

fun next_moves :: "variant \<Rightarrow> real \<Rightarrow> real" where
  "next_moves Modified x = x"
| "next_moves Original x = of_int \<lceil>x\<rceil>"

text \<open>The local variables of \<open>simulate\<close>, under their names in the source.\<close>

record state =
  moves :: real
  D :: real
  res :: real
  cycle :: nat
  z_angle :: real
  m_angle :: real
  z_x :: "real list"
  z_y :: "real list"
  m_x :: "real list"
  m_y :: "real list"
  D_list :: "real list"
  z_angle_list :: "real list"
  m_angle_list :: "real list"
  moves_list :: "real list"

definition init_state :: state where
  "init_state =
     \<lparr>moves = 1, D = 0, res = 0, cycle = 0, z_angle = 0, m_angle = 0,
      z_x = [0], z_y = [0], m_x = [0], m_y = [0],
      D_list = [0], z_angle_list = [0], m_angle_list = [0], moves_list = [1]\<rparr>"

text \<open>
  The dictionary returned by \<open>simulate\<close>; the field \<open>out_k\<close> is the entry under the
  key \<open>k\<close>.
\<close>

record run =
  out_z_x :: "real list"
  out_z_y :: "real list"
  out_m_x :: "real list"
  out_m_y :: "real list"
  out_D :: "real list"
  out_z_angle :: "real list"
  out_m_angle :: "real list"
  out_moves :: "real list"
  out_res :: real
  out_cycles :: nat

definition result :: "state \<Rightarrow> run" where
  "result st =
     \<lparr>out_z_x = z_x st, out_z_y = z_y st, out_m_x = m_x st, out_m_y = m_y st,
      out_D = D_list st, out_z_angle = z_angle_list st, out_m_angle = m_angle_list st,
      out_moves = moves_list st, out_res = res st, out_cycles = cycle st\<rparr>"

subsection \<open>One cycle\<close>

text \<open>
  The branch \<open>if cycle == 1\<close>. The position lists are never empty (they start with one
  entry and only grow), so \<open>z_x[-1]\<close> is \<^term>\<open>last\<close> of the list.
\<close>

definition first_cycle :: "variant \<Rightarrow> real \<Rightarrow> state \<Rightarrow> state option" where
  "first_cycle v a st = do {
     let D' = 1;
     let res' = res st + 1;
     let step_z = moves st;
     let new_z_x = last (z_x st) + step_z * cos (z_angle st);
     let new_z_y = last (z_y st) + step_z * sin (z_angle st);
     let z_x' = z_x st @ [new_z_x];
     let z_y' = z_y st @ [new_z_y];
     let m_x' = m_x st @ [last (m_x st)];
     let m_y' = m_y st @ [last (m_y st)];
     let moves' = next_moves v a;
     q \<leftarrow> mp_div 1 moves';
     alfa_new \<leftarrow> mp_asin q;
     let z_angle' = wrap_angle (z_angle st + alfa_new);
     Some (st\<lparr>moves := moves', D := D', res := res', z_angle := z_angle',
            z_x := z_x', z_y := z_y', m_x := m_x', m_y := m_y',
            D_list := D_list st @ [D'],
            z_angle_list := z_angle_list st @ [z_angle'],
            m_angle_list := m_angle_list st @ [m_angle st],
            moves_list := moves_list st @ [moves']\<rparr>)
   }"

text \<open>The branch \<open>else\<close>: every cycle after the first.\<close>

definition later_cycle :: "variant \<Rightarrow> real \<Rightarrow> state \<Rightarrow> state option" where
  "later_cycle v a st = do {
     m_dist \<leftarrow> mp_sqrt (moves st * moves st - 1);
     let x_diff = m_dist - moves st + D st;
     let D' = hypot x_diff 1;
     let res' = res st + moves st;
     q_old \<leftarrow> mp_div 1 (moves st);
     alfa_old \<leftarrow> mp_asin q_old;
     let new_z_x = last (z_x st) + moves st * cos (z_angle st);
     let new_z_y = last (z_y st) + moves st * sin (z_angle st);
     let new_m_x = last (m_x st) + moves st * cos (m_angle st);
     let new_m_y = last (m_y st) + moves st * sin (m_angle st);
     let z_x' = z_x st @ [new_z_x];
     let z_y' = z_y st @ [new_z_y];
     let m_x' = m_x st @ [new_m_x];
     let m_y' = m_y st @ [new_m_y];
     q_D \<leftarrow> mp_div 1 D';
     turn_m \<leftarrow> mp_asin q_D;
     let m_angle' = wrap_angle (m_angle st + turn_m);
     let moves' = next_moves v (a * D');
     q_new \<leftarrow> mp_div 1 moves';
     turn_new \<leftarrow> mp_asin q_new;
     q_D2 \<leftarrow> mp_div 1 D';
     turn_D \<leftarrow> mp_asin q_D2;
     let z_angle' = wrap_angle (z_angle st + turn_new + turn_D - alfa_old);
     Some (st\<lparr>moves := moves', D := D', res := res',
            z_angle := z_angle', m_angle := m_angle',
            z_x := z_x', z_y := z_y', m_x := m_x', m_y := m_y',
            D_list := D_list st @ [D'],
            z_angle_list := z_angle_list st @ [z_angle'],
            m_angle_list := m_angle_list st @ [m_angle'],
            moves_list := moves_list st @ [moves']\<rparr>)
   }"

text \<open>The body of the \<open>for\<close> loop up to the test of \<open>D_limit\<close>: \<open>cycle += 1\<close>, then one branch.\<close>

definition cycle_body :: "variant \<Rightarrow> real \<Rightarrow> state \<Rightarrow> state option" where
  "cycle_body v a st =
     (let st1 = st\<lparr>cycle := cycle st + 1\<rparr>
      in if cycle st1 = 1 then first_cycle v a st1 else later_cycle v a st1)"

subsection \<open>The loop and the function\<close>

text \<open>
  \<open>for _ in range(max_steps)\<close> with \<open>if D > D_limit: break\<close> at the end of the body.
  The first argument after the parameters counts the iterations that remain.
\<close>

fun loop :: "variant \<Rightarrow> real \<Rightarrow> real \<Rightarrow> nat \<Rightarrow> state \<Rightarrow> state option" where
  "loop v a D_limit 0 st = Some st"
| "loop v a D_limit (Suc k) st =
     (case cycle_body v a st of
        None \<Rightarrow> None
      | Some st' \<Rightarrow> if D st' > D_limit then Some st' else loop v a D_limit k st')"

text \<open>
  \<open>simulate(a, D_limit, max_steps, digits)\<close>. A negative \<open>max_steps\<close> gives an empty
  \<open>range\<close>, as \<open>0\<close> does.
\<close>

definition simulate :: "variant \<Rightarrow> real \<Rightarrow> real \<Rightarrow> int \<Rightarrow> run option" where
  "simulate v a D_limit max_steps =
     map_option result (loop v a D_limit (nat max_steps) init_state)"

subsection \<open>Bookkeeping of the histories\<close>

text \<open>
  The four logs have one entry per value of \<open>cycle\<close> from \<open>0\<close> on, and the scalars
  are the newest entries. This holds at the top of every iteration.
\<close>

definition tracked :: "state \<Rightarrow> bool" where
  "tracked st \<longleftrightarrow>
     length (D_list st) = Suc (cycle st) \<and> length (moves_list st) = Suc (cycle st)
     \<and> length (z_angle_list st) = Suc (cycle st) \<and> length (m_angle_list st) = Suc (cycle st)
     \<and> D st = D_list st ! cycle st \<and> moves st = moves_list st ! cycle st
     \<and> z_angle st = z_angle_list st ! cycle st \<and> m_angle st = m_angle_list st ! cycle st"

text \<open>
  The distance recurrence of the branch \<open>else\<close>, read off two logs \<open>ds\<close> (distances) and
  \<open>ms\<close> (step lengths) at cycle \<open>n\<close>: the radicand is not negative, and the new distance
  is \<open>hypot(m_dist - moves + D, 1)\<close> with the entries of cycle \<open>n - 1\<close>.
\<close>

definition recurrence_at :: "real list \<Rightarrow> real list \<Rightarrow> nat \<Rightarrow> bool" where
  "recurrence_at ds ms n \<longleftrightarrow>
     0 \<le> ms ! (n - 1) * ms ! (n - 1) - 1 \<and>
     ds ! n = hypot (sqrt (ms ! (n - 1) * ms ! (n - 1) - 1) - ms ! (n - 1) + ds ! (n - 1)) 1"

section \<open>Angle wrapping\<close>



subsection \<open>The constant \<open>PI_LD\<close> lies below \<open>pi\<close>\<close>







lemma PI_LD_bounds: "3 < PI_LD" "0 < PI_LD"
  by (simp_all add: PI_LD_def)


lemma floor_zero: "0 \<le> x \<Longrightarrow> x < 1 \<Longrightarrow> \<lfloor>x::real\<rfloor> = 0"
  by (simp add: floor_eq_iff)

subsection \<open>Range and period\<close>



section \<open>One cycle and the loop\<close>

lemma first_cycle_Some:
  assumes "first_cycle v a st = Some st'"
  shows "cycle st' = cycle st \<and> D st' = 1 \<and> res st' = res st + 1
    \<and> moves st' = next_moves v a \<and> moves st' \<noteq> 0
    \<and> - 1 \<le> 1 / moves st' \<and> 1 / moves st' \<le> 1
    \<and> z_angle st' = wrap_angle (z_angle st + arcsin (1 / moves st'))
    \<and> m_angle st' = m_angle st
    \<and> D_list st' = D_list st @ [D st']
    \<and> moves_list st' = moves_list st @ [moves st']
    \<and> z_angle_list st' = z_angle_list st @ [z_angle st']
    \<and> m_angle_list st' = m_angle_list st @ [m_angle st']"
  using assms
  by (auto simp: first_cycle_def Let_def bind_eq_Some_conv mp_div_def mp_asin_def
      split: if_splits)

lemma later_cycle_Some:
  assumes "later_cycle v a st = Some st'"
  shows "cycle st' = cycle st
    \<and> 0 \<le> moves st * moves st - 1
    \<and> D st' = hypot (sqrt (moves st * moves st - 1) - moves st + D st) 1
    \<and> res st' = res st + moves st
    \<and> moves st' = next_moves v (a * D st') \<and> moves st' \<noteq> 0
    \<and> - 1 \<le> 1 / moves st' \<and> 1 / moves st' \<le> 1
    \<and> m_angle st' = wrap_angle (m_angle st + arcsin (1 / D st'))
    \<and> z_angle st' = wrap_angle (z_angle st + arcsin (1 / moves st') + arcsin (1 / D st')
          - arcsin (1 / moves st))
    \<and> D_list st' = D_list st @ [D st']
    \<and> moves_list st' = moves_list st @ [moves st']
    \<and> z_angle_list st' = z_angle_list st @ [z_angle st']
    \<and> m_angle_list st' = m_angle_list st @ [m_angle st']"
  using assms
  by (auto simp: later_cycle_def Let_def bind_eq_Some_conv mp_div_def mp_asin_def mp_sqrt_def
      split: if_splits)

lemma cycle_body_cycle:
  assumes "cycle_body v a st = Some st'"
  shows "cycle st' = Suc (cycle st)"
proof (cases "cycle st = 0")
  case True
  with assms have "first_cycle v a (st\<lparr>cycle := cycle st + 1\<rparr>) = Some st'"
    by (simp add: cycle_body_def)
  from first_cycle_Some [OF this] show ?thesis by simp
next
  case False
  with assms have "later_cycle v a (st\<lparr>cycle := cycle st + 1\<rparr>) = Some st'"
    by (simp add: cycle_body_def)
  from later_cycle_Some [OF this] show ?thesis by simp
qed

lemma cycle_body_lists:
  assumes "cycle_body v a st = Some st'"
  shows "D_list st' = D_list st @ [D st']"
    and "moves_list st' = moves_list st @ [moves st']"
    and "z_angle_list st' = z_angle_list st @ [z_angle st']"
    and "m_angle_list st' = m_angle_list st @ [m_angle st']"
proof -
  have "D_list st' = D_list st @ [D st'] \<and> moves_list st' = moves_list st @ [moves st']
    \<and> z_angle_list st' = z_angle_list st @ [z_angle st']
    \<and> m_angle_list st' = m_angle_list st @ [m_angle st']"
  proof (cases "cycle st = 0")
    case True
    with assms have "first_cycle v a (st\<lparr>cycle := cycle st + 1\<rparr>) = Some st'"
      by (simp add: cycle_body_def)
    from first_cycle_Some [OF this] show ?thesis by simp
  next
    case False
    with assms have "later_cycle v a (st\<lparr>cycle := cycle st + 1\<rparr>) = Some st'"
      by (simp add: cycle_body_def)
    from later_cycle_Some [OF this] show ?thesis by simp
  qed
  then show "D_list st' = D_list st @ [D st']"
    and "moves_list st' = moves_list st @ [moves st']"
    and "z_angle_list st' = z_angle_list st @ [z_angle st']"
    and "m_angle_list st' = m_angle_list st @ [m_angle st']"
    by simp_all
qed

lemma cycle_body_first:
  assumes "cycle_body v a st = Some st'" and "cycle st = 0"
  shows "D st' = 1" and "res st' = res st + 1" and "moves st' = next_moves v a"
    and "z_angle st' = wrap_angle (z_angle st + arcsin (1 / next_moves v a))"
    and "m_angle st' = m_angle st"
proof -
  from assms have "first_cycle v a (st\<lparr>cycle := cycle st + 1\<rparr>) = Some st'"
    by (simp add: cycle_body_def)
  from first_cycle_Some [OF this]
  show "D st' = 1" and "res st' = res st + 1" and "moves st' = next_moves v a"
    and "z_angle st' = wrap_angle (z_angle st + arcsin (1 / next_moves v a))"
    and "m_angle st' = m_angle st"
    by simp_all
qed

lemma cycle_body_later:
  assumes "cycle_body v a st = Some st'" and "cycle st \<noteq> 0"
  shows "0 \<le> moves st * moves st - 1"
    and "D st' = hypot (sqrt (moves st * moves st - 1) - moves st + D st) 1"
    and "res st' = res st + moves st"
    and "moves st' = next_moves v (a * D st')"
proof -
  from assms have "later_cycle v a (st\<lparr>cycle := cycle st + 1\<rparr>) = Some st'"
    by (simp add: cycle_body_def)
  from later_cycle_Some [OF this]
  show "0 \<le> moves st * moves st - 1"
    and "D st' = hypot (sqrt (moves st * moves st - 1) - moves st + D st) 1"
    and "res st' = res st + moves st"
    and "moves st' = next_moves v (a * D st')"
    by simp_all
qed

lemma cycle_body_tracked:
  assumes "cycle_body v a st = Some st'" and "tracked st"
  shows "tracked st'"
  using assms(2) cycle_body_cycle [OF assms(1)] cycle_body_lists [OF assms(1)]
  by (simp add: tracked_def nth_append)

lemma tracked_init: "tracked init_state"
  by (simp add: tracked_def init_state_def)

lemma loop_invariant:
  assumes "loop v a L k st = Some st'" and "P st"
    and "\<And>s s'. P s \<Longrightarrow> cycle_body v a s = Some s' \<Longrightarrow> P s'"
  shows "P st'"
  using assms(1,2)
proof (induction k arbitrary: st)
  case 0
  then show ?case by simp
next
  case (Suc k)
  from Suc.prems(1) obtain s1 where b: "cycle_body v a st = Some s1"
    by (auto split: option.splits)
  have p1: "P s1" using assms(3) [OF Suc.prems(2) b] .
  show ?case
  proof (cases "D s1 > L")
    case True
    with Suc.prems(1) b have "st' = s1" by simp
    with p1 show ?thesis by simp
  next
    case False
    with Suc.prems(1) b have "loop v a L k s1 = Some st'" by simp
    from Suc.IH [OF this p1] show ?thesis .
  qed
qed

lemma hypot_ge_one: "1 \<le> hypot x 1"
  by (simp add: hypot_def)

lemma cycle_body_history:
  assumes b: "cycle_body v a st = Some st'" and t: "tracked st"
  shows "cycle st' = Suc (cycle st)"
    and "D_list st' ! Suc (cycle st) = D st'"
    and "moves_list st' ! Suc (cycle st) = moves st'"
    and "\<And>n. n \<le> cycle st \<Longrightarrow> D_list st' ! n = D_list st ! n"
    and "\<And>n. n \<le> cycle st \<Longrightarrow> moves_list st' ! n = moves_list st ! n"
    and "D st = D_list st ! cycle st"
    and "moves st = moves_list st ! cycle st"
proof -
  note l = cycle_body_lists [OF b]
  from t have len: "length (D_list st) = Suc (cycle st)" "length (moves_list st) = Suc (cycle st)"
    by (simp_all add: tracked_def)
  show "cycle st' = Suc (cycle st)" by (rule cycle_body_cycle [OF b])
  show "D_list st' ! Suc (cycle st) = D st'"
    using len by (simp add: l(1) nth_append)
  show "moves_list st' ! Suc (cycle st) = moves st'"
    using len by (simp add: l(2) nth_append)
  show "D_list st' ! n = D_list st ! n" if "n \<le> cycle st" for n
    using that len by (simp add: l(1) nth_append)
  show "moves_list st' ! n = moves_list st ! n" if "n \<le> cycle st" for n
    using that len by (simp add: l(2) nth_append)
  show "D st = D_list st ! cycle st" "moves st = moves_list st ! cycle st"
    using t by (simp_all add: tracked_def)
qed

lemma simulate_Some:
  assumes "simulate v a L ms = Some r"
  obtains st where "loop v a L (nat ms) init_state = Some st" and "r = result st"
  using assms by (auto simp: simulate_def)

lemma loop_tracked:
  assumes "loop v a L k st = Some st'" and "tracked st"
  shows "tracked st'"
  using assms(1,2)
  by (rule loop_invariant) (rule cycle_body_tracked)

lemma recurrence_step:
  assumes b: "cycle_body v a s = Some s'"
    and p: "tracked s \<and> (\<forall>n. 2 \<le> n \<and> n \<le> cycle s \<longrightarrow> recurrence_at (D_list s) (moves_list s) n)"
  shows "tracked s' \<and> (\<forall>n. 2 \<le> n \<and> n \<le> cycle s' \<longrightarrow> recurrence_at (D_list s') (moves_list s') n)"
proof (intro conjI allI impI)
  from p have t: "tracked s" by simp
  show "tracked s'" by (rule cycle_body_tracked [OF b t])
  note h = cycle_body_history [OF b t]
  fix n assume n: "2 \<le> n \<and> n \<le> cycle s'"
  show "recurrence_at (D_list s') (moves_list s') n"
  proof (cases "n \<le> cycle s")
    case True
    with n p have "recurrence_at (D_list s) (moves_list s) n" by simp
    moreover from True n have "n - 1 \<le> cycle s" by simp
    ultimately show ?thesis
      using True by (simp add: recurrence_at_def h(4,5))
  next
    case False
    with n h(1) have e: "n = Suc (cycle s)" by simp
    with n have nz: "cycle s \<noteq> 0" by simp
    note c = cycle_body_later [OF b nz]
    show ?thesis
      using c(1,2) by (simp add: recurrence_at_def e h(2) h(4,5) h(6) [symmetric] h(7) [symmetric])
  qed
qed

text \<open>Every cycle ends with a distance of at least \<open>1\<close>.\<close>

lemma distance_step:
  assumes b: "cycle_body v a s = Some s'"
  shows "1 \<le> D s'"
proof (cases "cycle s = 0")
  case True
  from cycle_body_first(1) [OF b True] show ?thesis by simp
next
  case False
  from cycle_body_later(2) [OF b False] show ?thesis by (simp add: hypot_ge_one)
qed

lemma distance_ge_one_step:
  assumes b: "cycle_body v a s = Some s'"
    and p: "tracked s \<and> (\<forall>n. 1 \<le> n \<and> n \<le> cycle s \<longrightarrow> 1 \<le> D_list s ! n)"
  shows "tracked s' \<and> (\<forall>n. 1 \<le> n \<and> n \<le> cycle s' \<longrightarrow> 1 \<le> D_list s' ! n)"
proof (intro conjI allI impI)
  from p have t: "tracked s" by simp
  show "tracked s'" by (rule cycle_body_tracked [OF b t])
  note h = cycle_body_history [OF b t]
  fix n assume n: "1 \<le> n \<and> n \<le> cycle s'"
  show "1 \<le> D_list s' ! n"
  proof (cases "n \<le> cycle s")
    case True
    with n p show ?thesis by (simp add: h(4))
  next
    case False
    with n h(1) have "n = Suc (cycle s)" by simp
    with distance_step [OF b] show ?thesis by (simp add: h(2))
  qed
qed

text \<open>The entries of cycle \<open>1\<close> stay what the first cycle wrote.\<close>

lemma first_entries_step:
  assumes b: "cycle_body v a s = Some s'"
    and p: "tracked s \<and> (1 \<le> cycle s \<longrightarrow> D_list s ! 1 = 1 \<and> moves_list s ! 1 = next_moves v a)"
  shows "tracked s' \<and> (1 \<le> cycle s' \<longrightarrow> D_list s' ! 1 = 1 \<and> moves_list s' ! 1 = next_moves v a)"
proof (intro conjI impI)
  from p have t: "tracked s" by simp
  show "tracked s'" by (rule cycle_body_tracked [OF b t])
  note h = cycle_body_history [OF b t]
  show "D_list s' ! 1 = 1" and "moves_list s' ! 1 = next_moves v a"
  proof -
    have "D_list s' ! 1 = 1 \<and> moves_list s' ! 1 = next_moves v a"
    proof (cases "cycle s = 0")
      case True
      from cycle_body_first(1,3) [OF b True] h(2,3) True show ?thesis by simp
    next
      case False
      then have "1 \<le> cycle s" by simp
      with p h(4) [of 1] h(5) [of 1] show ?thesis by simp
    qed
    then show "D_list s' ! 1 = 1" and "moves_list s' ! 1 = next_moves v a" by simp_all
  qed
qed

lemma loop_first_entries:
  assumes "loop v a L k init_state = Some st" and "1 \<le> cycle st"
  shows "D_list st ! 1 = 1" and "moves_list st ! 1 = next_moves v a"
proof -
  have "tracked init_state \<and>
    (1 \<le> cycle init_state \<longrightarrow> D_list init_state ! 1 = 1 \<and> moves_list init_state ! 1 = next_moves v a)"
    by (simp add: tracked_init) (simp add: init_state_def)
  with assms(1) have "tracked st \<and>
    (1 \<le> cycle st \<longrightarrow> D_list st ! 1 = 1 \<and> moves_list st ! 1 = next_moves v a)"
    by (rule loop_invariant) (rule first_entries_step)
  with assms(2) show "D_list st ! 1 = 1" and "moves_list st ! 1 = next_moves v a" by simp_all
qed

lemma unit_moves_step:
  assumes b: "cycle_body Original a s = Some s'" and a: "0 < a"
    and p: "tracked s \<and> (\<forall>n. 1 \<le> n \<and> n \<le> cycle s \<longrightarrow>
        moves_list s ! n = of_int \<lceil>a * D_list s ! n\<rceil> \<and> 1 \<le> \<lceil>a * D_list s ! n\<rceil>)"
  shows "tracked s' \<and> (\<forall>n. 1 \<le> n \<and> n \<le> cycle s' \<longrightarrow>
        moves_list s' ! n = of_int \<lceil>a * D_list s' ! n\<rceil> \<and> 1 \<le> \<lceil>a * D_list s' ! n\<rceil>)"
proof (intro conjI allI impI)
  from p have t: "tracked s" by simp
  show t': "tracked s'" by (rule cycle_body_tracked [OF b t])
  note h = cycle_body_history [OF b t]
  have m: "moves s' = of_int \<lceil>a * D s'\<rceil>"
  proof (cases "cycle s = 0")
    case True
    from cycle_body_first(1,3) [OF b True] show ?thesis by simp
  next
    case False
    from cycle_body_later(4) [OF b False] show ?thesis by simp
  qed
  from a distance_step [OF b] have "0 < a * D s'" by simp
  then have "0 < \<lceil>a * D s'\<rceil>" by simp
  then have c: "1 \<le> \<lceil>a * D s'\<rceil>" by linarith
  fix n assume n: "1 \<le> n \<and> n \<le> cycle s'"
  show "moves_list s' ! n = of_int \<lceil>a * D_list s' ! n\<rceil>" and "1 \<le> \<lceil>a * D_list s' ! n\<rceil>"
  proof -
    have "moves_list s' ! n = of_int \<lceil>a * D_list s' ! n\<rceil> \<and> 1 \<le> \<lceil>a * D_list s' ! n\<rceil>"
    proof (cases "n \<le> cycle s")
      case True
      with n p show ?thesis by (simp add: h(4,5))
    next
      case False
      with n h(1) have "n = Suc (cycle s)" by simp
      with m c show ?thesis by (simp add: h(2,3))
    qed
    then show "moves_list s' ! n = of_int \<lceil>a * D_list s' ! n\<rceil>"
      and "1 \<le> \<lceil>a * D_list s' ! n\<rceil>" by simp_all
  qed
qed

text \<open>
  The test \<open>if D > D_limit: break\<close>: while the loop goes on, no recorded distance of a
  cycle is above \<open>D_limit\<close>, and a loop that ends with iterations left has just recorded
  a distance above it.
\<close>

lemma loop_threshold:
  assumes "loop v a L k st = Some st'" and "tracked st"
    and "\<forall>n. 1 \<le> n \<and> n \<le> cycle st \<longrightarrow> D_list st ! n \<le> L"
  shows "cycle st' \<le> cycle st + k
    \<and> (\<forall>n. 1 \<le> n \<and> n < cycle st' \<longrightarrow> D_list st' ! n \<le> L)
    \<and> (cycle st' < cycle st + k \<longrightarrow> L < D st')"
  using assms
proof (induction k arbitrary: st)
  case 0
  then show ?case by simp
next
  case (Suc k)
  from Suc.prems(1) obtain s1 where b: "cycle_body v a st = Some s1"
    by (auto split: option.splits)
  have t1: "tracked s1" by (rule cycle_body_tracked [OF b Suc.prems(2)])
  note h = cycle_body_history [OF b Suc.prems(2)]
  show ?case
  proof (cases "D s1 > L")
    case True
    with Suc.prems(1) b have e: "st' = s1" by simp
    have "\<forall>n. 1 \<le> n \<and> n < cycle s1 \<longrightarrow> D_list s1 ! n \<le> L"
      using Suc.prems(3) h(1) h(4) by simp
    with True e h(1) show ?thesis by simp
  next
    case False
    with Suc.prems(1) b have l: "loop v a L k s1 = Some st'" by simp
    have "\<forall>n. 1 \<le> n \<and> n \<le> cycle s1 \<longrightarrow> D_list s1 ! n \<le> L"
    proof (intro allI impI)
      fix n assume n: "1 \<le> n \<and> n \<le> cycle s1"
      show "D_list s1 ! n \<le> L"
      proof (cases "n \<le> cycle st")
        case True
        with n Suc.prems(3) show ?thesis by (simp add: h(4))
      next
        case False
        with n h(1) have "n = Suc (cycle st)" by simp
        with \<open>\<not> D s1 > L\<close> show ?thesis by (simp add: h(2))
      qed
    qed
    from Suc.IH [OF l t1 this] h(1) show ?thesis by simp
  qed
qed


lemma tracked_last:
  assumes "tracked st"
  shows "last (D_list st) = D st"
proof -
  from assms have "D_list st \<noteq> []" and "length (D_list st) - 1 = cycle st"
    and "D st = D_list st ! cycle st"
    by (auto simp: tracked_def)
  then show ?thesis by (simp add: last_conv_nth)
qed

text \<open>
  One more iteration allowed: the loop with \<open>k + 1\<close> iterations does what the loop with
  \<open>k\<close> iterations does and then, unless that one stopped at the threshold, one more cycle.
  So \<open>simulate\<close> with a smaller \<open>max_steps\<close> returns the state of the longer run at that
  point.
\<close>

lemma loop_Suc_end:
  "loop v a L (Suc k) st =
     (case loop v a L k st of
        None \<Rightarrow> None
      | Some s \<Rightarrow> if 0 < k \<and> L < D s then Some s else cycle_body v a s)"
proof (induction k arbitrary: st)
  case 0
  show ?case by (simp split: option.splits)
next
  case (Suc k)
  show ?case
  proof (cases "cycle_body v a st")
    case None
    then show ?thesis by simp
  next
    case (Some s1)
    show ?thesis
    proof (cases "L < D s1")
      case True
      with Some show ?thesis by simp
    next
      case False
      have "loop v a L (Suc (Suc k)) st = loop v a L (Suc k) s1"
        using Some False by simp
      also have "\<dots> = (case loop v a L k s1 of None \<Rightarrow> None
          | Some s \<Rightarrow> if 0 < k \<and> L < D s then Some s else cycle_body v a s)"
        by (rule Suc.IH)
      also have "\<dots> = (case loop v a L k s1 of None \<Rightarrow> None
          | Some s \<Rightarrow> if 0 < Suc k \<and> L < D s then Some s else cycle_body v a s)"
      proof (cases k)
        case 0
        with False show ?thesis by simp
      next
        case (Suc j)
        then have "0 < k" by simp
        then show ?thesis by (cases "loop v a L k s1") simp_all
      qed
      also have "loop v a L k s1 = loop v a L (Suc k) st"
        using Some False by simp
      finally show ?thesis .
    qed
  qed
qed

lemma loop_Suc_cases:
  assumes "loop v a L (Suc k) st = Some s'"
  obtains s where "loop v a L k st = Some s" and "s' = s \<or> cycle_body v a s = Some s'"
proof -
  from assms have "(case loop v a L k st of None \<Rightarrow> None
      | Some s \<Rightarrow> if 0 < k \<and> L < D s then Some s else cycle_body v a s) = Some s'"
    by (simp only: loop_Suc_end)
  then show thesis
    by (cases "loop v a L k st") (auto simp del: loop.simps split: if_splits intro: that)
qed

lemma loop_shorter:
  assumes "loop v a L m st = Some s'" and "k \<le> m"
  shows "\<exists>s. loop v a L k st = Some s"
  using assms
proof (induction m arbitrary: s')
  case 0
  then show ?case by simp
next
  case (Suc m)
  show ?case
  proof (cases "k = Suc m")
    case True
    with Suc.prems(1) show ?thesis by simp
  next
    case False
    with Suc.prems(2) have k: "k \<le> m" by simp
    from Suc.prems(1) obtain s0 where "loop v a L m st = Some s0"
      by (rule loop_Suc_cases)
    from Suc.IH [OF this k] show ?thesis .
  qed
qed





section \<open>Runs that return\<close>

text \<open>
  With \<open>a > 0\<close> and a first step length of at least \<open>1\<close>, every step length stays at
  least \<open>1\<close>, every call of the library is inside its domain, and \<open>simulate\<close> returns.
\<close>

lemma next_moves_ge_one:
  assumes "0 < a" and "1 \<le> next_moves v a" and "1 \<le> d"
  shows "1 \<le> next_moves v (a * d)"
proof (cases v)
  case Modified
  with assms(2) have "1 \<le> a" by simp
  with assms(3) have "1 * 1 \<le> a * d" by (intro mult_mono) simp_all
  with Modified show ?thesis by simp
next
  case Original
  from assms(1,3) have "0 < a * d" by simp
  then have "0 < \<lceil>a * d\<rceil>" by simp
  then have "1 \<le> \<lceil>a * d\<rceil>" by linarith
  then have "(1::real) \<le> of_int \<lceil>a * d\<rceil>" by linarith
  with Original show ?thesis by simp
qed

lemma asin_recip_defined:
  assumes "1 \<le> m"
  shows "mp_div 1 m = Some (1 / m)" and "mp_asin (1 / m) = Some (arcsin (1 / m))"
proof -
  from assms show "mp_div 1 m = Some (1 / m)" by (simp add: mp_div_def)
  from assms have "0 < 1 / m" and le: "1 / m \<le> 1" by simp_all
  then have "- 1 \<le> 1 / m" by linarith
  from this le have "- 1 \<le> 1 / m \<and> 1 / m \<le> 1" by (rule conjI)
  then show "mp_asin (1 / m) = Some (arcsin (1 / m))"
    unfolding mp_asin_def by (rule if_P)
qed

lemma sqrt_radicand_defined:
  assumes "1 \<le> (m::real)"
  shows "mp_sqrt (m * m - 1) = Some (sqrt (m * m - 1))"
proof -
  from assms have "1 * 1 \<le> m * m" by (intro mult_mono) simp_all
  then show ?thesis by (simp add: mp_sqrt_def)
qed

lemma cycle_body_total:
  assumes a: "0 < a" "1 \<le> next_moves v a" and m: "1 \<le> moves s"
  shows "\<exists>s'. cycle_body v a s = Some s' \<and> 1 \<le> moves s'"
proof (cases "cycle s = 0")
  case True
  note d = asin_recip_defined [OF a(2)]
  from True show ?thesis
    by (simp add: cycle_body_def first_cycle_def Let_def d a(2))
next
  case False
  let ?D = "hypot (sqrt (moves s * moves s - 1) - moves s + D s) 1"
  have hD: "1 \<le> ?D" by (rule hypot_ge_one)
  have nm: "1 \<le> next_moves v (a * ?D)" by (rule next_moves_ge_one [OF a hD])
  note d1 = sqrt_radicand_defined [OF m]
  note d2 = asin_recip_defined [OF m]
  note d3 = asin_recip_defined [OF hD]
  note d4 = asin_recip_defined [OF nm]
  from False show ?thesis
    by (simp add: cycle_body_def later_cycle_def Let_def d1 d2 d3 d4 nm)
qed

lemma loop_total:
  assumes a: "0 < a" "1 \<le> next_moves v a"
  shows "1 \<le> moves s \<Longrightarrow> \<exists>s'. loop v a L k s = Some s'"
proof (induction k arbitrary: s)
  case 0
  then show ?case by simp
next
  case (Suc k)
  from cycle_body_total [OF a Suc.prems] obtain s1
    where b: "cycle_body v a s = Some s1" and m1: "1 \<le> moves s1" by blast
  from Suc.IH [OF m1] obtain s2 where "loop v a L k s1 = Some s2" by blast
  with b show ?case by simp
qed

lemma simulate_total:
  assumes "0 < a" and "1 \<le> next_moves v a"
  shows "\<exists>r. simulate v a L ms = Some r"
proof -
  have "1 \<le> moves init_state" by (simp add: init_state_def)
  from loop_total [OF assms this] obtain s' where "loop v a L (nat ms) init_state = Some s'"
    by blast
  then show ?thesis by (simp add: simulate_def)
qed

text \<open>
  The same for either sign: a step length of magnitude at least \<open>1\<close> keeps every call of
  the library inside its domain, and the magnitudes stay at least \<open>1\<close>. A first step length
  of magnitude below \<open>1\<close> makes the first cycle fail, at the division or at the arc sine.
\<close>

lemma abs_ge_one_recip:
  fixes m :: real
  assumes "1 \<le> \<bar>m\<bar>"
  shows "m \<noteq> 0" and "- 1 \<le> 1 / m \<and> 1 / m \<le> 1" and "0 \<le> m * m - 1"
proof -
  from assms show nz: "m \<noteq> 0" by auto
  show "- 1 \<le> 1 / m \<and> 1 / m \<le> 1"
  proof (cases "0 < m")
    case True
    with assms have "1 \<le> m" by simp
    then have "0 < 1 / m" and le: "1 / m \<le> 1" by simp_all
    then have "- 1 \<le> 1 / m" by linarith
    from this le show ?thesis by (rule conjI)
  next
    case False
    with assms have "m \<le> - 1" by simp
    then have "1 / m < 0" and ge: "- 1 \<le> 1 / m" by (simp_all add: le_divide_eq)
    then have "1 / m \<le> 1" by linarith
    from ge this show ?thesis by (rule conjI)
  qed
  from assms have "1 * 1 \<le> \<bar>m\<bar> * \<bar>m\<bar>" by (intro mult_mono) simp_all
  then show "0 \<le> m * m - 1" by (simp add: abs_mult_self_eq)
qed

lemma library_calls_defined:
  fixes m :: real
  assumes "1 \<le> \<bar>m\<bar>"
  shows "mp_div 1 m = Some (1 / m)" and "mp_asin (1 / m) = Some (arcsin (1 / m))"
    and "mp_sqrt (m * m - 1) = Some (sqrt (m * m - 1))"
proof -
  note f = abs_ge_one_recip [OF assms]
  from f(1) show "mp_div 1 m = Some (1 / m)" by (simp add: mp_div_def)
  from f(2) show "mp_asin (1 / m) = Some (arcsin (1 / m))"
    unfolding mp_asin_def by (rule if_P)
  from f(3) show "mp_sqrt (m * m - 1) = Some (sqrt (m * m - 1))"
    unfolding mp_sqrt_def by (rule if_P)
qed

lemma recip_in_domain_abs:
  fixes m :: real
  assumes "m \<noteq> 0" and "- 1 \<le> 1 / m" and "1 / m \<le> 1"
  shows "1 \<le> \<bar>m\<bar>"
proof -
  from assms(2,3) have "\<bar>1 / m\<bar> \<le> 1" by (intro abs_leI) linarith+
  then have "1 / \<bar>m\<bar> \<le> 1" by (simp add: abs_divide)
  moreover from assms(1) have "0 < \<bar>m\<bar>" by simp
  ultimately show ?thesis by (simp add: pos_divide_le_eq)
qed

lemma next_moves_abs_ge_one:
  assumes "1 \<le> \<bar>next_moves v a\<bar>" and "1 \<le> d"
  shows "1 \<le> \<bar>next_moves v (a * d)\<bar>"
proof (cases v)
  case Modified
  with assms(1) have "1 \<le> \<bar>a\<bar>" by simp
  with assms(2) have "1 * 1 \<le> \<bar>a\<bar> * \<bar>d\<bar>" by (intro mult_mono) simp_all
  with Modified show ?thesis by (simp add: abs_mult)
next
  case Original
  with assms(1) have c: "1 \<le> \<bar>\<lceil>a\<rceil>\<bar>" by simp
  show ?thesis
  proof (cases "0 < a")
    case True
    with assms(2) have "0 < a * d" by simp
    then have "0 < \<lceil>a * d\<rceil>" by simp
    then have "(1::real) \<le> \<bar>of_int \<lceil>a * d\<rceil>\<bar>" by linarith
    with Original show ?thesis by simp
  next
    case False
    then have "\<lceil>a\<rceil> \<le> 0" by (simp add: ceiling_le_iff)
    with c have "\<lceil>a\<rceil> \<le> - 1" by linarith
    then have "a \<le> - 1" by (simp add: ceiling_le_iff)
    then have "1 \<le> - a" by simp
    with assms(2) have "1 * 1 \<le> (- a) * d" by (intro mult_mono) simp_all
    then have "a * d \<le> - 1" by simp
    then have "\<lceil>a * d\<rceil> \<le> - 1" by (simp add: ceiling_le_iff)
    then have "(1::real) \<le> \<bar>of_int \<lceil>a * d\<rceil>\<bar>" by linarith
    with Original show ?thesis by simp
  qed
qed

lemma cycle_body_defined:
  assumes a: "1 \<le> \<bar>next_moves v a\<bar>" and m: "1 \<le> \<bar>moves s\<bar>"
  shows "\<exists>s'. cycle_body v a s = Some s' \<and> 1 \<le> \<bar>moves s'\<bar>"
proof (cases "cycle s = 0")
  case True
  note d = library_calls_defined(1,2) [OF a]
  from True show ?thesis
    by (simp add: cycle_body_def first_cycle_def Let_def d a)
next
  case False
  let ?D = "hypot (sqrt (moves s * moves s - 1) - moves s + D s) 1"
  have hD: "1 \<le> ?D" by (rule hypot_ge_one)
  then have hD': "1 \<le> \<bar>?D\<bar>" by simp
  have nm: "1 \<le> \<bar>next_moves v (a * ?D)\<bar>" by (rule next_moves_abs_ge_one [OF a hD])
  note d1 = library_calls_defined [OF m]
  note d3 = library_calls_defined(1,2) [OF hD']
  note d4 = library_calls_defined(1,2) [OF nm]
  from False show ?thesis
    by (simp add: cycle_body_def later_cycle_def Let_def d1 d3 d4 nm)
qed

lemma loop_defined:
  assumes a: "1 \<le> \<bar>next_moves v a\<bar>"
  shows "1 \<le> \<bar>moves s\<bar> \<Longrightarrow> \<exists>s'. loop v a L k s = Some s'"
proof (induction k arbitrary: s)
  case 0
  then show ?case by simp
next
  case (Suc k)
  from cycle_body_defined [OF a Suc.prems] obtain s1
    where b: "cycle_body v a s = Some s1" and m1: "1 \<le> \<bar>moves s1\<bar>" by blast
  from Suc.IH [OF m1] obtain s2 where "loop v a L k s1 = Some s2" by blast
  with b show ?case by simp
qed

lemma simulate_defined:
  assumes "1 \<le> \<bar>next_moves v a\<bar>"
  shows "\<exists>r. simulate v a L ms = Some r"
proof -
  have "1 \<le> \<bar>moves init_state\<bar>" by (simp add: init_state_def)
  from loop_defined [OF assms this] obtain s' where "loop v a L (nat ms) init_state = Some s'"
    by blast
  then show ?thesis by (simp add: simulate_def)
qed

lemma first_cycle_fails:
  assumes "\<bar>next_moves v a\<bar> < 1" and "cycle s = 0"
  shows "cycle_body v a s = None"
proof (cases "next_moves v a = 0")
  case True
  with assms(2) show ?thesis
    by (simp add: cycle_body_def first_cycle_def Let_def mp_div_def)
next
  case False
  have "\<not> (- 1 \<le> 1 / next_moves v a \<and> 1 / next_moves v a \<le> 1)"
  proof
    assume "- 1 \<le> 1 / next_moves v a \<and> 1 / next_moves v a \<le> 1"
    with False have "1 \<le> \<bar>next_moves v a\<bar>" by (intro recip_in_domain_abs) simp_all
    with assms(1) show False by simp
  qed
  then have "mp_asin (1 / next_moves v a) = None"
    unfolding mp_asin_def by (rule if_not_P)
  with False assms(2) show ?thesis
    by (simp add: cycle_body_def first_cycle_def Let_def mp_div_def)
qed

lemma simulate_fails:
  assumes "1 \<le> ms" and "\<bar>next_moves v a\<bar> < 1"
  shows "simulate v a L ms = None"
proof -
  from assms(1) obtain k where k: "nat ms = Suc k" by (cases "nat ms") simp_all
  have "cycle init_state = 0" by (simp add: init_state_def)
  from first_cycle_fails [OF assms(2) this] show ?thesis
    by (simp add: simulate_def k)
qed

lemma cycle_body_moves_abs:
  assumes b: "cycle_body v a s = Some s'"
  shows "1 \<le> \<bar>moves s'\<bar>"
proof (cases "cycle s = 0")
  case True
  with b have "first_cycle v a (s\<lparr>cycle := cycle s + 1\<rparr>) = Some s'"
    by (simp add: cycle_body_def)
  from first_cycle_Some [OF this]
  have "moves s' \<noteq> 0" and "- 1 \<le> 1 / moves s'" and "1 / moves s' \<le> 1" by blast+
  then show ?thesis by (rule recip_in_domain_abs)
next
  case False
  with b have "later_cycle v a (s\<lparr>cycle := cycle s + 1\<rparr>) = Some s'"
    by (simp add: cycle_body_def)
  from later_cycle_Some [OF this]
  have "moves s' \<noteq> 0" and "- 1 \<le> 1 / moves s'" and "1 / moves s' \<le> 1" by blast+
  then show ?thesis by (rule recip_in_domain_abs)
qed

lemma moves_in_domain_step:
  assumes b: "cycle_body v a s = Some s'"
    and p: "tracked s \<and> (\<forall>n. 1 \<le> n \<and> n \<le> cycle s \<longrightarrow> 1 \<le> \<bar>moves_list s ! n\<bar>)"
  shows "tracked s' \<and> (\<forall>n. 1 \<le> n \<and> n \<le> cycle s' \<longrightarrow> 1 \<le> \<bar>moves_list s' ! n\<bar>)"
proof (intro conjI allI impI)
  from p have t: "tracked s" by simp
  show "tracked s'" by (rule cycle_body_tracked [OF b t])
  note h = cycle_body_history [OF b t]
  fix n assume n: "1 \<le> n \<and> n \<le> cycle s'"
  show "1 \<le> \<bar>moves_list s' ! n\<bar>"
  proof (cases "n \<le> cycle s")
    case True
    with n p show ?thesis by (simp add: h(5))
  next
    case False
    with n h(1) have "n = Suc (cycle s)" by simp
    with cycle_body_moves_abs [OF b] show ?thesis by (simp add: h(3))
  qed
qed

lemma first_call_fails_iff:
  "(mp_div 1 m = None \<or> mp_asin (1 / m) = None) \<longleftrightarrow> \<bar>m\<bar> < 1"
proof (cases "1 \<le> \<bar>m\<bar>")
  case True
  from library_calls_defined(1,2) [OF True] True show ?thesis by simp
next
  case False
  have "mp_div 1 m = None \<or> mp_asin (1 / m) = None"
  proof (cases "m = 0")
    case True
    then show ?thesis by (simp add: mp_div_def)
  next
    case nz: False
    have "\<not> (- 1 \<le> 1 / m \<and> 1 / m \<le> 1)"
    proof
      assume "- 1 \<le> 1 / m \<and> 1 / m \<le> 1"
      with nz have "1 \<le> \<bar>m\<bar>" by (intro recip_in_domain_abs) simp_all
      with False show False by simp
    qed
    then have "mp_asin (1 / m) = None" unfolding mp_asin_def by (rule if_not_P)
    then show ?thesis by simp
  qed
  with False show ?thesis by simp
qed

text \<open>Two concrete runs with \<open>a = 2\<close>: one cycle, and two cycles.\<close>

lemma simulate_one_cycle:
  "simulate v 2 L 1 =
     Some \<lparr>out_z_x = [0, 1], out_z_y = [0, 0], out_m_x = [0, 0], out_m_y = [0, 0],
           out_D = [0, 1], out_z_angle = [0, wrap_angle (arcsin (1 / 2))],
           out_m_angle = [0, 0], out_moves = [1, 2], out_res = 1, out_cycles = 1\<rparr>"
  by (cases v)
    (simp_all add: simulate_def init_state_def cycle_body_def first_cycle_def Let_def
      mp_div_def mp_asin_def result_def)

lemma sqrt_three_bounds: "17 / 10 < sqrt 3" "sqrt 3 < 7 / 4"
proof -
  show "17 / 10 < sqrt 3" by (rule real_less_rsqrt) (simp add: power2_eq_square)
  show "sqrt 3 < 7 / 4" by (rule real_less_lsqrt) (simp_all add: power2_eq_square)
qed

lemma second_distance: "hypot (sqrt 3 - 1) 1 = sqrt (5 - 2 * sqrt 3)"
proof -
  have "sqrt 3 * sqrt 3 = 3" by simp
  then have "(sqrt 3 - 1) * (sqrt 3 - 1) + 1 * 1 = 5 - 2 * sqrt 3"
    by (simp add: algebra_simps)
  then show ?thesis by (simp only: hypot_def)
qed

lemma second_distance_bounds: "1 < hypot (sqrt 3 - 1) 1" "hypot (sqrt 3 - 1) 1 < 13 / 10"
proof -
  note s = sqrt_three_bounds
  from s(2) have "1 < 5 - 2 * sqrt 3" by simp
  then have "sqrt 1 < sqrt (5 - 2 * sqrt 3)" by (simp only: real_sqrt_less_iff)
  then show "1 < hypot (sqrt 3 - 1) 1" by (simp add: second_distance)
  from s(1) have "5 - 2 * sqrt 3 < (13 / 10)\<^sup>2" by (simp add: power2_eq_square)
  then have "sqrt (5 - 2 * sqrt 3) < 13 / 10" by (intro real_less_lsqrt) simp_all
  then show "hypot (sqrt 3 - 1) 1 < 13 / 10" by (simp add: second_distance)
qed

lemma ceiling_second_step: "\<lceil>2 * hypot (sqrt 3 - 1) 1\<rceil> = 3"
proof -
  note b = second_distance_bounds
  from b have "2 < 2 * hypot (sqrt 3 - 1) 1" and "2 * hypot (sqrt 3 - 1) 1 \<le> 3" by simp_all
  then show ?thesis by (simp add: ceiling_eq_iff)
qed

text \<open>
  The first two cycles with \<open>a = 2\<close>, in either file: cycle \<open>1\<close> records the distance \<open>1\<close>
  and the step length \<open>2\<close>, cycle \<open>2\<close> the distance \<open>hypot(sqrt 3 - 1, 1)\<close>, about
  \<open>1.239\<close>.
\<close>

lemma two_cycle_states:
  obtains s1 s2 where "cycle_body v 2 init_state = Some s1" and "cycle_body v 2 s1 = Some s2"
    and "D s1 = 1" and "D s2 = hypot (sqrt 3 - 1) 1" and "cycle s2 = 2"
    and "D_list s2 ! 1 = 1" and "moves_list s2 ! 1 = 2"
    and "D_list s2 ! 2 = hypot (sqrt 3 - 1) 1"
    and "moves_list s2 ! 2 = next_moves v (2 * hypot (sqrt 3 - 1) 1)"
proof -
  have a: "(0::real) < 2" "1 \<le> next_moves v 2" by (cases v; simp)+
  have nm: "next_moves v 2 = 2" by (cases v) simp_all
  have m0: "1 \<le> moves init_state" by (simp add: init_state_def)
  from cycle_body_total [OF a m0] obtain s1
    where b1: "cycle_body v 2 init_state = Some s1" and m1: "1 \<le> moves s1" by blast
  from cycle_body_total [OF a m1] obtain s2
    where b2: "cycle_body v 2 s1 = Some s2" by blast
  have c0: "cycle init_state = 0" by (simp add: init_state_def)
  note f = cycle_body_first [OF b1 c0]
  note h1 = cycle_body_history [OF b1 tracked_init]
  have t1: "tracked s1" by (rule cycle_body_tracked [OF b1 tracked_init])
  note h2 = cycle_body_history [OF b2 t1]
  have c1: "cycle s1 = 1" using h1(1) c0 by simp
  then have nz: "cycle s1 \<noteq> 0" by simp
  note g = cycle_body_later [OF b2 nz]
  have c2: "cycle s2 = 2" using h2(1) c1 by simp
  have d2: "D s2 = hypot (sqrt 3 - 1) 1"
    using g(2) f(1) f(3) nm by simp
  have "D_list s2 ! 1 = 1"
    using h2(4) [of 1] c1 h1(2) c0 f(1) by simp
  moreover have "moves_list s2 ! 1 = 2"
    using h2(5) [of 1] c1 h1(3) c0 f(3) nm by simp
  moreover have "D_list s2 ! 2 = hypot (sqrt 3 - 1) 1"
    using h2(2) c1 d2 by (simp add: numeral_2_eq_2)
  moreover have "moves_list s2 ! 2 = next_moves v (2 * hypot (sqrt 3 - 1) 1)"
    using h2(3) c1 g(4) d2 by (simp add: numeral_2_eq_2)
  ultimately show thesis
    using b1 b2 f(1) d2 c2 by (rule that [rotated 5])
qed

lemma simulate_two_cycles:
  "\<exists>r. simulate v 2 100 2 = Some r \<and> out_cycles r = 2
     \<and> out_D r ! 1 = 1 \<and> out_moves r ! 1 = 2
     \<and> out_D r ! 2 = hypot (sqrt 3 - 1) 1
     \<and> out_moves r ! 2 = next_moves v (2 * hypot (sqrt 3 - 1) 1)"
proof -
  obtain s1 s2 where b: "cycle_body v 2 init_state = Some s1" "cycle_body v 2 s1 = Some s2"
    and d1: "D s1 = 1" and e: "cycle s2 = 2" "D_list s2 ! 1 = 1" "moves_list s2 ! 1 = 2"
      "D_list s2 ! 2 = hypot (sqrt 3 - 1) 1"
      "moves_list s2 ! 2 = next_moves v (2 * hypot (sqrt 3 - 1) 1)"
    by (rule two_cycle_states [of v]) blast
  have n2: "nat 2 = Suc (Suc 0)" by simp
  have "loop v 2 100 (nat 2) init_state = Some s2"
    unfolding n2 using b d1 by simp
  then have "simulate v 2 100 2 = Some (result s2)"
    unfolding simulate_def by simp
  with e show ?thesis by (simp add: result_def)
qed


text \<open>
  An angle already in the interval is left alone by \<open>wrap_angle\<close>; the rabbit's heading
  recorded at cycle \<open>1\<close> is the wrapped arc sine of \<open>1 / moves\<close>.
\<close>

lemma wrap_angle_id:
  assumes "- PI_LD \<le> x" and "x < PI_LD"
  shows "wrap_angle x = x"
proof -
  note P = PI_LD_bounds(2)
  from assms P have "0 \<le> (x + PI_LD) / (2 * PI_LD)" by simp
  moreover from assms P have "(x + PI_LD) / (2 * PI_LD) < 1" by simp
  ultimately have "\<lfloor>(x + PI_LD) / (2 * PI_LD)\<rfloor> = 0" by (rule floor_zero)
  then show ?thesis by (simp add: wrap_angle_def py_mod_def)
qed

lemma wrap_angle_arcsin_half: "wrap_angle (arcsin (1 / 2)) = arcsin (1 / 2)"
proof (rule wrap_angle_id)
  have b: "- (pi / 2) \<le> arcsin (1 / 2) \<and> arcsin (1 / 2) \<le> pi / 2"
    by (rule arcsin_bounded) simp_all
  note p = pi_less_4 PI_LD_bounds(1)
  from b p show "- PI_LD \<le> arcsin (1 / 2)" by linarith
  from b p show "arcsin (1 / 2) < PI_LD" by linarith
qed

lemma cycle_body_z_history:
  assumes b: "cycle_body v a st = Some st'" and t: "tracked st"
  shows "z_angle_list st' ! Suc (cycle st) = z_angle st'"
    and "\<And>n. n \<le> cycle st \<Longrightarrow> z_angle_list st' ! n = z_angle_list st ! n"
proof -
  note l = cycle_body_lists [OF b]
  from t have len: "length (z_angle_list st) = Suc (cycle st)"
    by (simp add: tracked_def)
  show "z_angle_list st' ! Suc (cycle st) = z_angle st'"
    using len by (simp add: l(3) nth_append)
  show "z_angle_list st' ! n = z_angle_list st ! n" if "n \<le> cycle st" for n
    using that len by (simp add: l(3) nth_append)
qed

lemma first_heading_step:
  assumes b: "cycle_body v a s = Some s'"
    and p: "tracked s \<and> (cycle s = 0 \<longrightarrow> z_angle s = 0)
      \<and> (1 \<le> cycle s \<longrightarrow> z_angle_list s ! 1 = wrap_angle (arcsin (1 / next_moves v a)))"
  shows "tracked s' \<and> (cycle s' = 0 \<longrightarrow> z_angle s' = 0)
      \<and> (1 \<le> cycle s' \<longrightarrow> z_angle_list s' ! 1 = wrap_angle (arcsin (1 / next_moves v a)))"
proof (intro conjI impI)
  from p have t: "tracked s" by simp
  show "tracked s'" by (rule cycle_body_tracked [OF b t])
  note c = cycle_body_cycle [OF b]
  note z = cycle_body_z_history [OF b t]
  show "z_angle s' = 0" if "cycle s' = 0" using that c by simp
  show "z_angle_list s' ! 1 = wrap_angle (arcsin (1 / next_moves v a))"
  proof (cases "cycle s = 0")
    case True
    from cycle_body_first(4) [OF b True] p True z(1) show ?thesis by simp
  next
    case False
    then have "1 \<le> cycle s" by simp
    with p z(2) [of 1] show ?thesis by simp
  qed
qed

lemma loop_first_heading:
  assumes "loop v a L k init_state = Some st" and "1 \<le> cycle st"
  shows "z_angle_list st ! 1 = wrap_angle (arcsin (1 / next_moves v a))"
proof -
  have "tracked init_state \<and> (cycle init_state = 0 \<longrightarrow> z_angle init_state = 0)
    \<and> (1 \<le> cycle init_state \<longrightarrow>
          z_angle_list init_state ! 1 = wrap_angle (arcsin (1 / next_moves v a)))"
    by (simp add: tracked_init) (simp add: init_state_def)
  with assms(1) have "tracked st \<and> (cycle st = 0 \<longrightarrow> z_angle st = 0)
    \<and> (1 \<le> cycle st \<longrightarrow> z_angle_list st ! 1 = wrap_angle (arcsin (1 / next_moves v a)))"
    by (rule loop_invariant) (rule first_heading_step)
  with assms(2) show ?thesis by simp
qed

lemma loop_cycle_mono:
  assumes "loop v a L k st = Some st'"
  shows "cycle st \<le> cycle st'"
proof -
  have "cycle st \<le> cycle st" by simp
  with assms show ?thesis
  proof (rule loop_invariant)
    fix s s' assume "cycle st \<le> cycle s" and "cycle_body v a s = Some s'"
    with cycle_body_cycle [of v a s s'] show "cycle st \<le> cycle s'" by simp
  qed
qed

lemma loop_Suc_cycle:
  assumes "loop v a L (Suc k) st = Some st'"
  shows "Suc (cycle st) \<le> cycle st'"
proof -
  from assms obtain s1 where b: "cycle_body v a st = Some s1"
    by (auto split: option.splits)
  note c = cycle_body_cycle [OF b]
  show ?thesis
  proof (cases "D s1 > L")
    case True
    with assms b c show ?thesis by simp
  next
    case False
    with assms b have "loop v a L k s1 = Some st'" by simp
    from loop_cycle_mono [OF this] c show ?thesis by simp
  qed
qed

section \<open>The distance recurrence\<close>

text \<open>
  C1. In every run that returns, of either file, and for every cycle \<open>n > 1\<close>, the recorded
  distance is \<open>hypot(m_dist - moves + D, 1)\<close> with \<open>m_dist = sqrt(moves * moves - 1)\<close>, where
  \<open>moves\<close> and \<open>D\<close> are the step length and the distance recorded at cycle \<open>n - 1\<close>; the
  radicand is not negative there.
\<close>

theorem distance_recurrence:
  assumes "simulate v a L ms = Some r" and "2 \<le> n" and "n \<le> out_cycles r"
  shows "0 \<le> out_moves r ! (n - 1) * out_moves r ! (n - 1) - 1 \<and>
    out_D r ! n =
      hypot (sqrt (out_moves r ! (n - 1) * out_moves r ! (n - 1) - 1)
             - out_moves r ! (n - 1) + out_D r ! (n - 1)) 1"
proof -
  from assms(1) obtain st where l: "loop v a L (nat ms) init_state = Some st"
    and r: "r = result st" by (rule simulate_Some)
  have "tracked init_state \<and>
    (\<forall>n. 2 \<le> n \<and> n \<le> cycle init_state \<longrightarrow>
       recurrence_at (D_list init_state) (moves_list init_state) n)"
    by (simp add: tracked_init) (simp add: init_state_def)
  with l have "tracked st \<and>
    (\<forall>n. 2 \<le> n \<and> n \<le> cycle st \<longrightarrow> recurrence_at (D_list st) (moves_list st) n)"
    by (rule loop_invariant) (rule recurrence_step)
  with assms(2,3) r have "recurrence_at (out_D r) (out_moves r) n"
    by (simp add: result_def)
  then show ?thesis by (simp add: recurrence_at_def)
qed

theorem distance_recurrence_witness:
  "\<exists>r. simulate Modified 2 100 2 = Some r \<and> (2::nat) \<le> 2 \<and> 2 \<le> out_cycles r
     \<and> out_D r ! 2 = hypot (sqrt (2 * 2 - 1) - 2 + 1) 1"
proof -
  from simulate_two_cycles [of Modified] obtain r where r: "simulate Modified 2 100 2 = Some r"
    and c: "out_cycles r = 2" and e: "out_D r ! 1 = 1" "out_moves r ! 1 = 2" by blast
  have n: "(2::nat) \<le> 2" "2 \<le> out_cycles r" using c by simp_all
  from distance_recurrence [OF r n] e
  have "out_D r ! 2 = hypot (sqrt (2 * 2 - 1) - 2 + 1) 1" by simp
  with r n show ?thesis by blast
qed

section \<open>Lengths of the histories\<close>

text \<open>
  C6. In every run that returns, the lists under \<open>D\<close>, \<open>z_angle\<close>, \<open>m_angle\<close> and
  \<open>moves\<close> have the same length, the returned cycle count plus one.
\<close>

theorem history_lengths:
  assumes "simulate v a L ms = Some r"
  shows "length (out_D r) = out_cycles r + 1 \<and> length (out_z_angle r) = out_cycles r + 1
    \<and> length (out_m_angle r) = out_cycles r + 1 \<and> length (out_moves r) = out_cycles r + 1"
proof -
  from assms obtain st where l: "loop v a L (nat ms) init_state = Some st"
    and r: "r = result st" by (rule simulate_Some)
  from l tracked_init have "tracked st" by (rule loop_tracked)
  then show ?thesis by (simp add: r result_def tracked_def)
qed

theorem history_lengths_witness:
  "\<exists>r. simulate Original 2 100 2 = Some r \<and> out_cycles r = 2 \<and> length (out_D r) = 3
     \<and> length (out_z_angle r) = 3 \<and> length (out_m_angle r) = 3 \<and> length (out_moves r) = 3"
proof -
  from simulate_two_cycles [of Original] obtain r
    where r: "simulate Original 2 100 2 = Some r" and c: "out_cycles r = 2" by blast
  from history_lengths [OF r] c r show ?thesis by simp
qed

section \<open>The distance is at least one\<close>

text \<open>
  C10. In every run that returns and for every completed cycle \<open>n \<ge> 1\<close>, the recorded
  distance is at least \<open>1\<close>, so \<open>1 / D\<close> lies in \<open>(0, 1]\<close> and the arc sine of the
  hunter's turn is called inside its domain.
\<close>

theorem distance_at_least_one:
  assumes "simulate v a L ms = Some r" and "1 \<le> n" and "n \<le> out_cycles r"
  shows "1 \<le> out_D r ! n \<and> 0 < 1 / out_D r ! n \<and> 1 / out_D r ! n \<le> 1
    \<and> mp_asin (1 / out_D r ! n) = Some (arcsin (1 / out_D r ! n))"
proof -
  from assms(1) obtain st where l: "loop v a L (nat ms) init_state = Some st"
    and r: "r = result st" by (rule simulate_Some)
  have "tracked init_state \<and>
    (\<forall>n. 1 \<le> n \<and> n \<le> cycle init_state \<longrightarrow> 1 \<le> D_list init_state ! n)"
    by (simp add: tracked_init) (simp add: init_state_def)
  with l have "tracked st \<and> (\<forall>n. 1 \<le> n \<and> n \<le> cycle st \<longrightarrow> 1 \<le> D_list st ! n)"
    by (rule loop_invariant) (rule distance_ge_one_step)
  with assms(2,3) r have d: "1 \<le> out_D r ! n"
    by (simp add: result_def)
  then have "0 < 1 / out_D r ! n" and "1 / out_D r ! n \<le> 1" by simp_all
  with d asin_recip_defined(2) [OF d] show ?thesis by simp
qed

theorem distance_at_least_one_witness:
  "\<exists>r. simulate Modified 2 100 2 = Some r \<and> (1::nat) \<le> 2 \<and> 2 \<le> out_cycles r
     \<and> out_D r ! 2 = hypot (sqrt 3 - 1) 1 \<and> 1 \<le> out_D r ! 2 \<and> 1 / out_D r ! 2 \<le> 1
     \<and> mp_asin (1 / out_D r ! 2) = Some (arcsin (1 / out_D r ! 2))"
proof -
  from simulate_two_cycles [of Modified] obtain r
    where r: "simulate Modified 2 100 2 = Some r" and c: "out_cycles r = 2"
      and d: "out_D r ! 2 = hypot (sqrt 3 - 1) 1" by blast
  have n: "(1::nat) \<le> 2" "2 \<le> out_cycles r" using c by simp_all
  from distance_at_least_one [OF r n] r n d show ?thesis by blast
qed

section \<open>Step lengths under the original rules\<close>

text \<open>
  C4. Under the original rules and with \<open>a > 0\<close>, every step length recorded after the seed
  entry is \<open>ceil(a * D)\<close> for the distance recorded at the same cycle (which is \<open>1\<close> at
  cycle \<open>1\<close>); it is an integer and at least \<open>1\<close>.
\<close>

theorem unit_moves_quantized:
  assumes "simulate Original a L ms = Some r" and "0 < a" and "1 \<le> n" and "n \<le> out_cycles r"
  shows "out_moves r ! n = of_int \<lceil>a * out_D r ! n\<rceil> \<and> out_D r ! 1 = 1
    \<and> out_moves r ! n \<in> \<int> \<and> 1 \<le> out_moves r ! n"
proof -
  from assms(1) obtain st where l: "loop Original a L (nat ms) init_state = Some st"
    and r: "r = result st" by (rule simulate_Some)
  have "tracked init_state \<and> (\<forall>n. 1 \<le> n \<and> n \<le> cycle init_state \<longrightarrow>
      moves_list init_state ! n = of_int \<lceil>a * D_list init_state ! n\<rceil>
      \<and> 1 \<le> \<lceil>a * D_list init_state ! n\<rceil>)"
    by (simp add: tracked_init) (simp add: init_state_def)
  with l have "tracked st \<and> (\<forall>n. 1 \<le> n \<and> n \<le> cycle st \<longrightarrow>
      moves_list st ! n = of_int \<lceil>a * D_list st ! n\<rceil> \<and> 1 \<le> \<lceil>a * D_list st ! n\<rceil>)"
    by (rule loop_invariant) (rule unit_moves_step [OF _ assms(2)])
  with assms(3,4) r have e: "out_moves r ! n = of_int \<lceil>a * out_D r ! n\<rceil>"
    and c: "1 \<le> \<lceil>a * out_D r ! n\<rceil>"
    by (simp_all add: result_def)
  from c have "(1::real) \<le> of_int \<lceil>a * out_D r ! n\<rceil>" by linarith
  moreover from assms(3,4) r have "1 \<le> cycle st" by (simp add: result_def)
  from loop_first_entries(1) [OF l this] r have "out_D r ! 1 = 1" by (simp add: result_def)
  ultimately show ?thesis using e by simp
qed

theorem unit_moves_quantized_witness:
  "\<exists>r. simulate Original 2 100 2 = Some r \<and> (0::real) < 2 \<and> (1::nat) \<le> 2
     \<and> 2 \<le> out_cycles r \<and> out_D r ! 2 = hypot (sqrt 3 - 1) 1
     \<and> out_moves r ! 2 = of_int \<lceil>2 * out_D r ! 2\<rceil> \<and> out_moves r ! 2 = 3"
proof -
  from simulate_two_cycles [of Original] obtain r
    where r: "simulate Original 2 100 2 = Some r" and c: "out_cycles r = 2"
      and d: "out_D r ! 2 = hypot (sqrt 3 - 1) 1" by blast
  have a: "(0::real) < 2" by simp
  have n: "(1::nat) \<le> 2" "2 \<le> out_cycles r" using c by simp_all
  from unit_moves_quantized [OF r a n]
  have e: "out_moves r ! 2 = of_int \<lceil>2 * out_D r ! 2\<rceil>" by simp
  with d ceiling_second_step have "out_moves r ! 2 = 3" by simp
  with r a n d e show ?thesis by blast
qed

section \<open>Stopping at the threshold\<close>



section \<open>Runs cut off by \<open>max_steps\<close>\<close>

text \<open>
  C8, as stated, fails: the returned dictionary has no entry that tells why the loop ended.
  The run with \<open>a = 2\<close>, \<open>D_limit = 100\<close> and \<open>max_steps = 1\<close> is cut off after one cycle with
  the distance \<open>1\<close>, never above \<open>100\<close>; the run with \<open>D_limit = 1/2\<close> and \<open>max_steps = 5\<close>
  stops at the threshold in cycle \<open>1\<close>. Both return the same value.
\<close>

theorem truncated_run_not_distinct:
  "simulate Modified 2 100 1 = simulate Modified 2 (1 / 2) 5
   \<and> map_option out_D (simulate Modified 2 100 1) = Some [0, 1]
   \<and> map_option out_cycles (simulate Modified 2 100 1) = Some 1"
proof -
  have n5: "nat 5 = Suc (Suc (Suc (Suc (Suc 0))))" by simp
  have e: "simulate Modified 2 (1 / 2) 5 = simulate Modified 2 (1 / 2) 1"
    unfolding simulate_def n5
    by (simp add: init_state_def cycle_body_def first_cycle_def Let_def mp_div_def mp_asin_def)
  show ?thesis
    unfolding e by (simp add: simulate_one_cycle)
qed

text \<open>
  C8, amended. The result carries no status. A returned run whose last recorded distance is
  at most \<open>D_limit\<close> executed all \<open>max_steps\<close> cycles and no cycle's distance was above
  \<open>D_limit\<close>; only by comparing the last distance with the \<open>D_limit\<close> it passed can a caller
  recognise such a run.
\<close>

theorem truncated_run_marks:
  assumes "simulate v a L ms = Some r" and "last (out_D r) \<le> L"
  shows "int (out_cycles r) = max 0 ms
    \<and> (\<forall>n. 1 \<le> n \<and> n \<le> out_cycles r \<longrightarrow> out_D r ! n \<le> L)"
proof -
  from assms(1) obtain st where l: "loop v a L (nat ms) init_state = Some st"
    and r: "r = result st" by (rule simulate_Some)
  have t: "tracked st" by (rule loop_tracked [OF l tracked_init])
  have i: "\<forall>n. 1 \<le> n \<and> n \<le> cycle init_state \<longrightarrow> D_list init_state ! n \<le> L"
    by (simp add: init_state_def)
  note th = loop_threshold [OF l tracked_init i]
  have c0: "cycle init_state = 0" by (simp add: init_state_def)
  from assms(2) r tracked_last [OF t] have le: "D st \<le> L" by (simp add: result_def)
  with th c0 have c: "cycle st = nat ms" by simp
  from t have dl: "D st = D_list st ! cycle st" by (simp add: tracked_def)
  have "D_list st ! n \<le> L" if "1 \<le> n" and "n \<le> cycle st" for n
  proof (cases "n = cycle st")
    case True
    with le dl show ?thesis by simp
  next
    case False
    with that th show ?thesis by simp
  qed
  with c show ?thesis by (simp add: r result_def)
qed

theorem truncated_run_marks_witness:
  "\<exists>r. simulate Modified 2 100 1 = Some r \<and> last (out_D r) \<le> 100
     \<and> int (out_cycles r) = max 0 1 \<and> out_D r ! 1 \<le> 100"
proof -
  obtain r where r: "simulate Modified 2 100 1 = Some r" and d: "out_D r = [0, 1]"
    and c: "out_cycles r = 1"
    using simulate_one_cycle [of Modified 100] by simp
  have n: "last (out_D r) \<le> 100" using d by simp
  from truncated_run_marks [OF r n] r n c show ?thesis by auto
qed

section \<open>The accumulated distance\<close>




section \<open>The first cycle with \<open>a = 2\<close>\<close>

text \<open>
  C9. The modified model called with \<open>a = 2\<close>, \<open>D_limit = 100\<close> and at least one cycle
  allowed returns, and its entries of cycle \<open>1\<close> are the distance \<open>1\<close>, the step length
  \<open>2\<close> for the next cycle, and the rabbit heading \<open>asin(1/2)\<close>.
\<close>

theorem first_cycle_scenario:
  assumes "1 \<le> ms"
  shows "\<exists>r. simulate Modified 2 100 ms = Some r \<and> 1 \<le> out_cycles r
    \<and> out_D r ! 1 = 1 \<and> out_moves r ! 1 = 2 \<and> out_z_angle r ! 1 = arcsin (1 / 2)"
proof -
  have a: "(0::real) < 2" "1 \<le> next_moves Modified 2" by simp_all
  from simulate_total [OF a] obtain r where r: "simulate Modified 2 100 ms = Some r" by blast
  then obtain st where l: "loop Modified 2 100 (nat ms) init_state = Some st"
    and rs: "r = result st" by (rule simulate_Some)
  from assms obtain k where "nat ms = Suc k" by (cases "nat ms") simp_all
  with l have "loop Modified 2 100 (Suc k) init_state = Some st" by simp
  from loop_Suc_cycle [OF this] have c: "1 \<le> cycle st" by simp
  note e = loop_first_entries [OF l c]
  from loop_first_heading [OF l c]
  have "z_angle_list st ! 1 = wrap_angle (arcsin (1 / 2))" by simp
  also have "\<dots> = arcsin (1 / 2)" by (rule wrap_angle_arcsin_half)
  finally have z: "z_angle_list st ! 1 = arcsin (1 / 2)" .
  from c e z have "1 \<le> out_cycles r \<and> out_D r ! 1 = 1 \<and> out_moves r ! 1 = 2
    \<and> out_z_angle r ! 1 = arcsin (1 / 2)"
    by (simp add: rs result_def)
  with r show ?thesis by blast
qed

theorem first_cycle_scenario_witness:
  "(1::int) \<le> 1 \<and> (\<exists>r. simulate Modified 2 100 1 = Some r \<and> out_cycles r = 1
     \<and> out_D r = [0, 1] \<and> out_moves r = [1, 2] \<and> out_z_angle r ! 1 = arcsin (1 / 2))"
proof -
  have h: "(1::int) \<le> 1" by simp
  from first_cycle_scenario [OF h] simulate_one_cycle [of Modified 100]
  show ?thesis by auto
qed

section \<open>Calls outside the domain\<close>

text \<open>
  C7. Neither file clamps an argument or catches an exception, so a call of the library
  outside its domain ends the run: \<open>simulate\<close> fails exactly when at least one cycle is run
  and the first step length has magnitude below \<open>1\<close>, which is when the division
  \<open>1.0 / moves\<close> or the arc sine of cycle \<open>1\<close> is undefined; and in every run that returns,
  every recorded step length and distance was passed to the division, the arc sine and the
  square root inside their domains, so no value from outside them has entered the
  recurrence.
\<close>

theorem domain_faults_surface:
  "(simulate v a L ms = None \<longleftrightarrow> 1 \<le> ms \<and> \<bar>next_moves v a\<bar> < 1)
   \<and> (\<bar>next_moves v a\<bar> < 1 \<longleftrightarrow>
        mp_div 1 (next_moves v a) = None \<or> mp_asin (1 / next_moves v a) = None)
   \<and> (simulate v a L ms = Some r \<longrightarrow>
        (\<forall>n. 1 \<le> n \<and> n \<le> out_cycles r \<longrightarrow>
           mp_div 1 (out_moves r ! n) = Some (1 / out_moves r ! n)
         \<and> mp_asin (1 / out_moves r ! n) = Some (arcsin (1 / out_moves r ! n))
         \<and> mp_sqrt (out_moves r ! n * out_moves r ! n - 1)
               = Some (sqrt (out_moves r ! n * out_moves r ! n - 1))
         \<and> mp_div 1 (out_D r ! n) = Some (1 / out_D r ! n)
         \<and> mp_asin (1 / out_D r ! n) = Some (arcsin (1 / out_D r ! n))))"
proof (intro conjI impI allI)
  show "simulate v a L ms = None \<longleftrightarrow> 1 \<le> ms \<and> \<bar>next_moves v a\<bar> < 1"
  proof
    assume n: "simulate v a L ms = None"
    have "1 \<le> ms"
    proof (rule ccontr)
      assume "\<not> 1 \<le> ms"
      then have "nat ms = 0" by simp
      then have "simulate v a L ms = Some (result init_state)" by (simp add: simulate_def)
      with n show False by simp
    qed
    moreover have "\<bar>next_moves v a\<bar> < 1"
    proof (rule ccontr)
      assume "\<not> \<bar>next_moves v a\<bar> < 1"
      then have "1 \<le> \<bar>next_moves v a\<bar>" by simp
      from simulate_defined [OF this, of L ms] n show False by simp
    qed
    ultimately show "1 \<le> ms \<and> \<bar>next_moves v a\<bar> < 1" by (rule conjI)
  next
    assume "1 \<le> ms \<and> \<bar>next_moves v a\<bar> < 1"
    then show "simulate v a L ms = None" by (intro simulate_fails) simp_all
  qed
  show "\<bar>next_moves v a\<bar> < 1 \<longleftrightarrow>
      mp_div 1 (next_moves v a) = None \<or> mp_asin (1 / next_moves v a) = None"
    by (rule first_call_fails_iff [symmetric])
next
  fix n assume s: "simulate v a L ms = Some r" and n: "1 \<le> n \<and> n \<le> out_cycles r"
  from s obtain st where l: "loop v a L (nat ms) init_state = Some st"
    and r: "r = result st" by (rule simulate_Some)
  have "tracked init_state \<and>
    (\<forall>n. 1 \<le> n \<and> n \<le> cycle init_state \<longrightarrow> 1 \<le> \<bar>moves_list init_state ! n\<bar>)"
    by (simp add: tracked_init) (simp add: init_state_def)
  with l have "tracked st \<and>
    (\<forall>n. 1 \<le> n \<and> n \<le> cycle st \<longrightarrow> 1 \<le> \<bar>moves_list st ! n\<bar>)"
    by (rule loop_invariant) (rule moves_in_domain_step)
  with n r have m: "1 \<le> \<bar>out_moves r ! n\<bar>" by (simp add: result_def)
  have "tracked init_state \<and>
    (\<forall>n. 1 \<le> n \<and> n \<le> cycle init_state \<longrightarrow> 1 \<le> D_list init_state ! n)"
    by (simp add: tracked_init) (simp add: init_state_def)
  with l have "tracked st \<and> (\<forall>n. 1 \<le> n \<and> n \<le> cycle st \<longrightarrow> 1 \<le> D_list st ! n)"
    by (rule loop_invariant) (rule distance_ge_one_step)
  with n r have "1 \<le> out_D r ! n" by (simp add: result_def)
  then have d: "1 \<le> \<bar>out_D r ! n\<bar>" by simp
  note cm = library_calls_defined [OF m]
  note cd = library_calls_defined(1,2) [OF d]
  show "mp_div 1 (out_moves r ! n) = Some (1 / out_moves r ! n)" by (rule cm(1))
  show "mp_asin (1 / out_moves r ! n) = Some (arcsin (1 / out_moves r ! n))" by (rule cm(2))
  show "mp_sqrt (out_moves r ! n * out_moves r ! n - 1)
      = Some (sqrt (out_moves r ! n * out_moves r ! n - 1))" by (rule cm(3))
  show "mp_div 1 (out_D r ! n) = Some (1 / out_D r ! n)" by (rule cd(1))
  show "mp_asin (1 / out_D r ! n) = Some (arcsin (1 / out_D r ! n))" by (rule cd(2))
qed

theorem domain_faults_surface_witness:
  "simulate Modified (1 / 2) 100 3 = None \<and> (1::int) \<le> 3
   \<and> \<bar>next_moves Modified (1 / 2)\<bar> < 1
   \<and> mp_asin (1 / next_moves Modified (1 / 2)) = None
   \<and> (\<exists>r. simulate Modified 2 100 2 = Some r \<and> out_cycles r = 2
         \<and> mp_sqrt (out_moves r ! 1 * out_moves r ! 1 - 1) = Some (sqrt 3)
         \<and> mp_asin (1 / out_moves r ! 2) = Some (arcsin (1 / out_moves r ! 2))
         \<and> mp_asin (1 / out_D r ! 2) = Some (arcsin (1 / out_D r ! 2)))"
proof -
  have h: "(1::int) \<le> 3" "\<bar>next_moves Modified (1 / 2)\<bar> < 1" by simp_all
  from domain_faults_surface [of Modified "1 / 2" 100 3] h
  have f: "simulate Modified (1 / 2) 100 3 = None" by blast
  have g: "mp_asin (1 / next_moves Modified (1 / 2)) = None" by (simp add: mp_asin_def)
  from simulate_two_cycles [of Modified] obtain r
    where r: "simulate Modified 2 100 2 = Some r" and c: "out_cycles r = 2"
      and m: "out_moves r ! 1 = 2" by blast
  from domain_faults_surface [of Modified 2 100 2 r] r c
  have "mp_sqrt (out_moves r ! 1 * out_moves r ! 1 - 1)
          = Some (sqrt (out_moves r ! 1 * out_moves r ! 1 - 1))"
    and e2: "mp_asin (1 / out_moves r ! 2) = Some (arcsin (1 / out_moves r ! 2))"
    and e3: "mp_asin (1 / out_D r ! 2) = Some (arcsin (1 / out_D r ! 2))"
    by simp_all
  with m have e1: "mp_sqrt (out_moves r ! 1 * out_moves r ! 1 - 1) = Some (sqrt 3)" by simp
  from r c e1 e2 e3 have "\<exists>r. simulate Modified 2 100 2 = Some r \<and> out_cycles r = 2
         \<and> mp_sqrt (out_moves r ! 1 * out_moves r ! 1 - 1) = Some (sqrt 3)
         \<and> mp_asin (1 / out_moves r ! 2) = Some (arcsin (1 / out_moves r ! 2))
         \<and> mp_asin (1 / out_D r ! 2) = Some (arcsin (1 / out_D r ! 2))" by blast
  with f h g show ?thesis by blast
qed

end
